theory Spec2Isabelle
  imports Main "HOL-Library.AList"
begin

section \<open>Python values used by \<^verbatim>\<open>orrery/observable.py\<close>\<close>

text \<open>
  Objects are named by their identity. What the module asks of an object is kept in a
  heap: whether the object still exists, whether a weak reference to it can be created
  (it cannot for an instance of a class with \<^verbatim>\<open>__slots__\<close> and no \<^verbatim>\<open>__weakref__\<close>), what
  \<^verbatim>\<open>hash\<close> gives for it (nothing for an unhashable object, for which \<^verbatim>\<open>hash\<close> raises
  \<^verbatim>\<open>TypeError\<close>), and what \<^verbatim>\<open>==\<close> gives for two objects (\<^verbatim>\<open>__hash__\<close> and \<^verbatim>\<open>__eq__\<close>
  are taken to return). Each method runs against the heap of the moment it is called, so
  a hash may differ from one call to the next.
\<close>

type_synonym obj = nat

record heap =
  living :: "obj set"
  weakly_referenceable :: "obj \<Rightarrow> bool"
  hash_of :: "obj \<Rightarrow> int option"
  eq_of :: "obj \<Rightarrow> obj \<Rightarrow> bool"

text \<open>
  A callable passed as \<^verbatim>\<open>callback\<close> is a bound method (with \<^verbatim>\<open>__self__\<close> and
  \<^verbatim>\<open>__func__\<close>), a plain function or lambda (neither attribute), or a method of a built-in
  object (\<^verbatim>\<open>__self__\<close> only).
\<close>

datatype callable =
    BoundMethod obj obj
  | PlainFunction obj
  | BuiltinMethod obj

text \<open>
  A \<^verbatim>\<open>**kwargs\<close> dictionary: string keys in insertion order, as the called function
  receives it (the names of the function's own parameters are never among its keys).
\<close>

type_synonym 'v kwargs = "(string \<times> 'v) list"

text \<open>
  The exceptions that leave the methods of the module. \<open>Raised x\<close> is whatever exception
  a callback raised; \<open>x\<close> stands for the exception object and is never looked into.
\<close>

type_synonym exn = string

datatype error =
    AttributeError
  | TypeError_not_a_bound_method
  | TypeError_cannot_create_weak_reference
  | TypeError_unhashable
  | KeyError
  | RuntimeError_Unknown_callback_ID
  | TypeError_multiple_values string
  | TypeError_not_callable
  | Raised exn

text \<open>\<^verbatim>\<open>callback.__self__\<close>\<close>

fun attr_self :: "callable \<Rightarrow> error + obj" where
  "attr_self (BoundMethod s f) = Inr s"
| "attr_self (PlainFunction f) = Inl AttributeError"
| "attr_self (BuiltinMethod s) = Inr s"

subsection \<open>\<^verbatim>\<open>weakref.WeakMethod\<close>\<close>

text \<open>
  A weak method holds a weak reference to the object and one to the function of a bound
  method. Its constructor refuses anything that lacks \<^verbatim>\<open>__self__\<close> or \<^verbatim>\<open>__func__\<close>, and
  fails when a weak reference to the object or to the function cannot be created.
  Calling it gives the bound method back while both referents exist, and \<^verbatim>\<open>None\<close> after.
\<close>

datatype WeakMethod = WeakMethod obj obj

fun weakref_WeakMethod :: "heap \<Rightarrow> callable \<Rightarrow> error + WeakMethod" where
  "weakref_WeakMethod hp (BoundMethod s f) =
     (if \<not> weakly_referenceable hp s \<or> \<not> weakly_referenceable hp f
      then Inl TypeError_cannot_create_weak_reference
      else Inr (WeakMethod s f))"
| "weakref_WeakMethod hp (PlainFunction f) = Inl TypeError_not_a_bound_method"
| "weakref_WeakMethod hp (BuiltinMethod s) = Inl TypeError_not_a_bound_method"

fun WeakMethod_call :: "obj set \<Rightarrow> WeakMethod \<Rightarrow> callable option" where
  "WeakMethod_call alive (WeakMethod s f) =
     (if s \<notin> alive \<or> f \<notin> alive then None else Some (BoundMethod s f))"

fun weak_self :: "WeakMethod \<Rightarrow> obj" where
  "weak_self (WeakMethod s f) = s"

subsection \<open>\<^verbatim>\<open>weakref.WeakKeyDictionary\<close>\<close>

text \<open>
  The dictionary is its underlying \<^verbatim>\<open>data\<close>, a \<^verbatim>\<open>dict\<close> in insertion order whose keys
  are weak references to the key objects. A weak reference hashes as its referent did when
  the reference was stored, and two weak references are equal when both referents exist
  and the referents are equal under \<^verbatim>\<open>==\<close>. A looked-up key, hashed as it hashes at
  the lookup, therefore finds a stored reference with the same hash whose referent exists
  and equals it. (Where several stored references match, the first in insertion order is
  taken; the properties below are stated where at most one matches.)
\<close>

datatype wref = Ref (referent: obj) (cached_hash: int)

definition ref_matches :: "heap \<Rightarrow> obj \<Rightarrow> int \<Rightarrow> wref \<Rightarrow> bool" where
  "ref_matches hp k h r =
     (cached_hash r = h \<and> referent r \<in> living hp \<and> k \<in> living hp
      \<and> eq_of hp (referent r) k)"

text \<open>
  \<^verbatim>\<open>data[ref(key, remove)] = value\<close>: a matching entry keeps its stored reference and
  its place and takes the new value; otherwise a new entry is appended.
\<close>

fun setitem_entries :: "heap \<Rightarrow> obj \<Rightarrow> int \<Rightarrow> 'a \<Rightarrow> (wref \<times> 'a) list \<Rightarrow> (wref \<times> 'a) list" where
  "setitem_entries hp k h v [] = [(Ref k h, v)]"
| "setitem_entries hp k h v (p # d) =
     (if ref_matches hp k h (fst p) then (fst p, v) # d
      else p # setitem_entries hp k h v d)"

definition WeakKeyDictionary_setitem ::
  "heap \<Rightarrow> obj \<Rightarrow> 'a \<Rightarrow> (wref \<times> 'a) list \<Rightarrow> error + (wref \<times> 'a) list" where
  "WeakKeyDictionary_setitem hp k v d =
     (if \<not> weakly_referenceable hp k then Inl TypeError_cannot_create_weak_reference
      else case hash_of hp k of
             None \<Rightarrow> Inl TypeError_unhashable
           | Some h \<Rightarrow> Inr (setitem_entries hp k h v d))"

text \<open>
  \<^verbatim>\<open>key in dictionary\<close>: \<^verbatim>\<open>False\<close> for a key that cannot be weakly referenced;
  otherwise the key is hashed and looked up.
\<close>

definition WeakKeyDictionary_contains :: "heap \<Rightarrow> obj \<Rightarrow> (wref \<times> 'a) list \<Rightarrow> error + bool" where
  "WeakKeyDictionary_contains hp k d =
     (if \<not> weakly_referenceable hp k then Inr False
      else case hash_of hp k of
             None \<Rightarrow> Inl TypeError_unhashable
           | Some h \<Rightarrow> Inr (list_ex (\<lambda>p. ref_matches hp k h (fst p)) d))"

text \<open>\<^verbatim>\<open>del data[ref(key)]\<close>: the matching entry is dropped.\<close>

fun delitem_entries :: "heap \<Rightarrow> obj \<Rightarrow> int \<Rightarrow> (wref \<times> 'a) list \<Rightarrow> (wref \<times> 'a) list" where
  "delitem_entries hp k h [] = []"
| "delitem_entries hp k h (p # d) =
     (if ref_matches hp k h (fst p) then d else p # delitem_entries hp k h d)"

definition WeakKeyDictionary_delitem ::
  "heap \<Rightarrow> obj \<Rightarrow> (wref \<times> 'a) list \<Rightarrow> error + (wref \<times> 'a) list" where
  "WeakKeyDictionary_delitem hp k d =
     (if \<not> weakly_referenceable hp k then Inl TypeError_cannot_create_weak_reference
      else case hash_of hp k of
             None \<Rightarrow> Inl TypeError_unhashable
           | Some h \<Rightarrow>
               if list_ex (\<lambda>p. ref_matches hp k h (fst p)) d
               then Inr (delitem_entries hp k h d)
               else Inl KeyError)"

text \<open>\<^verbatim>\<open>values()\<close> yields the values whose key object still exists.\<close>

definition WeakKeyDictionary_values :: "obj set \<Rightarrow> (wref \<times> 'a) list \<Rightarrow> 'a list" where
  "WeakKeyDictionary_values alive d = map snd (filter (\<lambda>p. referent (fst p) \<in> alive) d)"

text \<open>
  When object \<open>k\<close> is destroyed, the callback of each weak reference to it deletes the
  entry stored under that reference.
\<close>

definition WeakKeyDictionary_remove :: "obj \<Rightarrow> (wref \<times> 'a) list \<Rightarrow> (wref \<times> 'a) list" where
  "WeakKeyDictionary_remove k d = filter (\<lambda>p. referent (fst p) \<noteq> k) d"

section \<open>\<^verbatim>\<open>class ObserverList\<close>\<close>

record 'v CallbackArgs =
  callback :: WeakMethod
  kwargs :: "'v kwargs"

record 'v ObserverList =
  observers :: "(wref \<times> 'v CallbackArgs) list"

text \<open>\<^verbatim>\<open>ObserverList.__init__\<close>\<close>

definition ObserverList_init :: "'v ObserverList" where
  "ObserverList_init = \<lparr>observers = []\<rparr>"

text \<open>
  \<^verbatim>\<open>ObserverList.add_observer\<close>: the new state of the list and the returned
  \<^verbatim>\<open>callback_id\<close>, or the exception.
\<close>

definition ObserverList_add_observer ::
  "heap \<Rightarrow> 'v ObserverList \<Rightarrow> callable \<Rightarrow> 'v kwargs \<Rightarrow> 'v ObserverList \<times> (error + obj)" where
  "ObserverList_add_observer hp ol cb kw =
     (case attr_self cb of
        Inl e \<Rightarrow> (ol, Inl e)
      | Inr callback_id \<Rightarrow>
          (case weakref_WeakMethod hp cb of
             Inl e \<Rightarrow> (ol, Inl e)
           | Inr weak_callback \<Rightarrow>
               (case WeakKeyDictionary_setitem hp callback_id
                       \<lparr>callback = weak_callback, kwargs = kw\<rparr> (observers ol) of
                  Inl e \<Rightarrow> (ol, Inl e)
                | Inr d \<Rightarrow> (ol\<lparr>observers := d\<rparr>, Inr callback_id))))"

text \<open>\<^verbatim>\<open>ObserverList.remove_observer\<close>\<close>

definition ObserverList_remove_observer ::
  "heap \<Rightarrow> 'v ObserverList \<Rightarrow> obj \<Rightarrow> 'v ObserverList \<times> (error + unit)" where
  "ObserverList_remove_observer hp ol callback_id =
     (case WeakKeyDictionary_contains hp callback_id (observers ol) of
        Inl e \<Rightarrow> (ol, Inl e)
      | Inr present \<Rightarrow>
          if \<not> present then (ol, Inl RuntimeError_Unknown_callback_ID)
          else (case WeakKeyDictionary_delitem hp callback_id (observers ol) of
                  Inl e \<Rightarrow> (ol, Inl e)
                | Inr d \<Rightarrow> (ol\<lparr>observers := d\<rparr>, Inr ())))"

text \<open>
  A callback is user code: \<open>run c kw\<close> is \<open>Some x\<close> when calling \<open>c\<close> with the keyword
  arguments \<open>kw\<close> raises \<open>x\<close>, and \<open>None\<close> when the call returns. Callbacks that call back
  into the same list or destroy objects are outside the model. A call is recorded as the
  callable and the keyword arguments it received.
\<close>

type_synonym 'v behaviour = "callable \<Rightarrow> 'v kwargs \<Rightarrow> exn option"

type_synonym 'v call = "callable \<times> 'v kwargs"

text \<open>
  \<^verbatim>\<open>f(**event_args, **kwargs)\<close> builds one dictionary from both; a key of the second
  that the first already has raises \<^verbatim>\<open>TypeError\<close> (got multiple values for keyword
  argument) before \<^verbatim>\<open>f\<close> is called.
\<close>

definition merge_kwargs :: "'v kwargs \<Rightarrow> 'v kwargs \<Rightarrow> error + 'v kwargs" where
  "merge_kwargs event_args kw =
     (case List.find (\<lambda>k. k \<in> set (map fst event_args)) (map fst kw) of
        Some k \<Rightarrow> Inl (TypeError_multiple_values k)
      | None \<Rightarrow> Inr (event_args @ kw))"

text \<open>
  The body of the loop of \<^verbatim>\<open>ObserverList.notify\<close>, over the values the dictionary
  yields: the calls made, in order, and the exception that ended the loop, if any.
\<close>

fun notify_loop ::
  "'v behaviour \<Rightarrow> obj set \<Rightarrow> 'v kwargs \<Rightarrow> 'v CallbackArgs list
     \<Rightarrow> 'v call list \<times> error option" where
  "notify_loop run alive event_args [] = ([], None)"
| "notify_loop run alive event_args (callback_args # rest) =
     (let target = WeakMethod_call alive (callback callback_args) in
      case merge_kwargs event_args (kwargs callback_args) of
        Inl e \<Rightarrow> ([], Some e)
      | Inr kw \<Rightarrow>
          (case target of
             None \<Rightarrow> ([], Some TypeError_not_callable)
           | Some c \<Rightarrow>
               (case run c kw of
                  Some x \<Rightarrow> ([(c, kw)], Some (Raised x))
                | None \<Rightarrow>
                    (case notify_loop run alive event_args rest of
                       (calls, err) \<Rightarrow> ((c, kw) # calls, err)))))"

text \<open>\<^verbatim>\<open>ObserverList.notify\<close>; it assigns to nothing, so there is no new state.\<close>

definition ObserverList_notify ::
  "'v behaviour \<Rightarrow> obj set \<Rightarrow> 'v ObserverList \<Rightarrow> 'v kwargs
     \<Rightarrow> 'v call list \<times> error option" where
  "ObserverList_notify run alive ol event_args =
     notify_loop run alive event_args (WeakKeyDictionary_values alive (observers ol))"

text \<open>The destruction of object \<open>k\<close>, as this list sees it.\<close>

definition ObserverList_collect :: "obj \<Rightarrow> 'v ObserverList \<Rightarrow> 'v ObserverList" where
  "ObserverList_collect k ol = ol\<lparr>observers := WeakKeyDictionary_remove k (observers ol)\<rparr>"

section \<open>\<^verbatim>\<open>class Observable\<close>\<close>

text \<open>\<^verbatim>\<open>class Event(str)\<close>: events are dictionary keys, compared as strings.\<close>

type_synonym Event = string

record 'v Observable =
  observer_lists :: "Event \<rightharpoonup> 'v ObserverList"

text \<open>\<^verbatim>\<open>Observable.__init__\<close>\<close>

definition Observable_init :: "'v Observable" where
  "Observable_init = \<lparr>observer_lists = Map.empty\<rparr>"

text \<open>
  \<^verbatim>\<open>Observable._get_observer_list\<close>: the Observable, with the list created if it was
  absent, and the list.
\<close>

definition get_observer_list :: "'v Observable \<Rightarrow> Event \<Rightarrow> 'v Observable \<times> 'v ObserverList" where
  "get_observer_list ob event =
     (case observer_lists ob event of
        None \<Rightarrow>
          (ob\<lparr>observer_lists := (observer_lists ob)(event \<mapsto> ObserverList_init)\<rparr>,
           ObserverList_init)
      | Some ol \<Rightarrow> (ob, ol))"

text \<open>
  The list is an object held by the dictionary, and the methods of \<^verbatim>\<open>ObserverList\<close>
  change it in place: the changed list is what the dictionary holds afterwards.
\<close>

definition put_observer_list :: "'v Observable \<Rightarrow> Event \<Rightarrow> 'v ObserverList \<Rightarrow> 'v Observable" where
  "put_observer_list ob event ol = ob\<lparr>observer_lists := (observer_lists ob)(event \<mapsto> ol)\<rparr>"

text \<open>\<^verbatim>\<open>Observable.add_observer\<close>\<close>

definition Observable_add_observer ::
  "heap \<Rightarrow> 'v Observable \<Rightarrow> Event \<Rightarrow> callable \<Rightarrow> 'v kwargs
     \<Rightarrow> 'v Observable \<times> (error + obj)" where
  "Observable_add_observer hp ob event cb kw =
     (case get_observer_list ob event of
        (ob1, ol) \<Rightarrow>
          (case ObserverList_add_observer hp ol cb kw of
             (ol', r) \<Rightarrow> (put_observer_list ob1 event ol', r)))"

text \<open>\<^verbatim>\<open>Observable.remove_observer\<close>\<close>

definition Observable_remove_observer ::
  "heap \<Rightarrow> 'v Observable \<Rightarrow> Event \<Rightarrow> obj \<Rightarrow> 'v Observable \<times> (error + unit)" where
  "Observable_remove_observer hp ob event callback_id =
     (case get_observer_list ob event of
        (ob1, ol) \<Rightarrow>
          (case ObserverList_remove_observer hp ol callback_id of
             (ol', r) \<Rightarrow> (put_observer_list ob1 event ol', r)))"

text \<open>\<^verbatim>\<open>Observable.notify\<close>\<close>

definition Observable_notify ::
  "'v behaviour \<Rightarrow> obj set \<Rightarrow> 'v Observable \<Rightarrow> Event \<Rightarrow> 'v kwargs
     \<Rightarrow> 'v Observable \<times> 'v call list \<times> error option" where
  "Observable_notify run alive ob event event_args =
     (case get_observer_list ob event of
        (ob1, ol) \<Rightarrow> (ob1, ObserverList_notify run alive ol event_args))"

text \<open>The destruction of object \<open>k\<close>, as every list of the Observable sees it.\<close>

definition Observable_collect :: "obj \<Rightarrow> 'v Observable \<Rightarrow> 'v Observable" where
  "Observable_collect k ob =
     ob\<lparr>observer_lists := (\<lambda>event. map_option (ObserverList_collect k) (observer_lists ob event))\<rparr>"

text \<open>
  The registrations an Observable holds for an event; an event without a list has none.
\<close>

definition registrations :: "'v Observable \<Rightarrow> Event \<Rightarrow> (wref \<times> 'v CallbackArgs) list" where
  "registrations ob event =
     (case observer_lists ob event of None \<Rightarrow> [] | Some ol \<Rightarrow> observers ol)"

section \<open>Heaps and callback behaviours used in the examples\<close>

text \<open>
  \<open>ordinary A\<close>: the objects of \<open>A\<close> exist, and every object can be weakly referenced,
  hashes to a number of its own and equals itself only, as instances of classes that define
  neither \<^verbatim>\<open>__slots__\<close>, \<^verbatim>\<open>__hash__\<close> nor \<^verbatim>\<open>__eq__\<close> do. The other heaps change one
  object: \<open>unhashable k\<close> (a class with \<^verbatim>\<open>__eq__\<close> and no \<^verbatim>\<open>__hash__\<close>, such as a
  \<^verbatim>\<open>@dataclass\<close>), \<open>slotted k\<close> (no weak reference can be created), \<open>rehashed k h\<close>
  (the hash of \<open>k\<close> is now \<open>h\<close>), and \<open>equated a b\<close> (\<open>a\<close> and \<open>b\<close> are equal and hash
  alike, being distinct objects).
\<close>

definition ordinary :: "obj set \<Rightarrow> heap" where
  "ordinary A =
     \<lparr>living = A, weakly_referenceable = (\<lambda>k. True), hash_of = (\<lambda>k. Some (int k)),
      eq_of = (\<lambda>a b. a = b)\<rparr>"

definition unhashable :: "obj \<Rightarrow> heap \<Rightarrow> heap" where
  "unhashable k hp = hp\<lparr>hash_of := (hash_of hp)(k := None)\<rparr>"


definition rehashed :: "obj \<Rightarrow> int \<Rightarrow> heap \<Rightarrow> heap" where
  "rehashed k h hp = hp\<lparr>hash_of := (hash_of hp)(k := Some h)\<rparr>"


text \<open>\<open>quiet\<close>: every callback returns. \<open>raising s x\<close>: the callbacks of owner \<open>s\<close> raise \<open>x\<close>.\<close>

definition quiet :: "int behaviour" where
  "quiet c kw = None"

definition raising :: "obj \<Rightarrow> exn \<Rightarrow> int behaviour" where
  "raising s x c kw = (case c of BoundMethod s' f \<Rightarrow> if s' = s then Some x else None | _ \<Rightarrow> None)"

section \<open>Notions used to state the properties\<close>

text \<open>The bound method a weak method gives back while its referents exist.\<close>

fun bound :: "WeakMethod \<Rightarrow> callable" where
  "bound (WeakMethod s f) = BoundMethod s f"

text \<open>The call a registration receives when it is notified with \<open>event_args\<close>.\<close>

definition call_of :: "'v kwargs \<Rightarrow> 'v CallbackArgs \<Rightarrow> 'v call" where
  "call_of event_args ca = (bound (callback ca), event_args @ kwargs ca)"

text \<open>
  A registration delivers when notifying it alone raises nothing: its weak method is
  alive, its keyword arguments do not clash with \<open>event_args\<close>, and its callback returns.
\<close>

definition delivers :: "'v behaviour \<Rightarrow> obj set \<Rightarrow> 'v kwargs \<Rightarrow> 'v CallbackArgs \<Rightarrow> bool" where
  "delivers run alive event_args ca = (snd (notify_loop run alive event_args [ca]) = None)"

text \<open>The keyword arguments of each call of \<open>cb\<close>, in order.\<close>

definition invocations :: "callable \<Rightarrow> 'v call list \<Rightarrow> 'v kwargs list" where
  "invocations cb calls = map snd (filter (\<lambda>c. fst c = cb) calls)"

text \<open>The entries of a dictionary, each under the object its stored reference refers to.\<close>

definition by_owner :: "(wref \<times> 'a) list \<Rightarrow> (obj \<times> 'a) list" where
  "by_owner d = map (\<lambda>p. (referent (fst p), snd p)) d"

text \<open>The registrations that \<^verbatim>\<open>notify\<close> reaches before the one of owner \<open>s\<close>.\<close>

definition preceding :: "obj set \<Rightarrow> obj \<Rightarrow> (wref \<times> 'a) list \<Rightarrow> 'a list" where
  "preceding alive s d =
     WeakKeyDictionary_values alive (takeWhile (\<lambda>p. referent (fst p) \<noteq> s) d)"

text \<open>
  Object \<open>s\<close> is an ordinary key for the dictionary \<open>d\<close> in the heap \<open>hp\<close>: it exists,
  it can be weakly referenced and hashed, it equals itself, it equals a stored key object
  only when it is that object, and if it is stored, then under the hash it has now.
\<close>

definition ordinary_key :: "heap \<Rightarrow> obj \<Rightarrow> (wref \<times> 'a) list \<Rightarrow> bool" where
  "ordinary_key hp s d =
     (s \<in> living hp \<and> weakly_referenceable hp s \<and> hash_of hp s \<noteq> None \<and> eq_of hp s s \<and>
      list_all (\<lambda>p. eq_of hp (referent (fst p)) s = (referent (fst p) = s) \<and>
                    (if referent (fst p) = s then hash_of hp s = Some (cached_hash (fst p))
                     else True)) d)"

text \<open>
  What \<^verbatim>\<open>add_observer\<close> establishes for ordinary keys and every method keeps: a list has
  one entry per key object, and each entry is keyed by the owner of its callback.
\<close>

definition wf_ObserverList :: "'v ObserverList \<Rightarrow> bool" where
  "wf_ObserverList ol =
     (distinct (map fst (by_owner (observers ol))) \<and>
      list_all (\<lambda>p. weak_self (callback (snd p)) = fst p) (by_owner (observers ol)))"

definition wf_Observable :: "'v Observable \<Rightarrow> bool" where
  "wf_Observable ob = (\<forall>e ol. observer_lists ob e = Some ol \<longrightarrow> wf_ObserverList ol)"

text \<open>
  The states of an Observable whose owners are ordinary keys: the new one, and those that
  its methods and the destruction of objects lead to.
\<close>

inductive reachable :: "'v Observable \<Rightarrow> bool" where
  init: "reachable Observable_init"
| add: "reachable ob \<Longrightarrow>
        (\<And>s. attr_self cb = Inr s \<Longrightarrow> ordinary_key hp s (registrations ob e)) \<Longrightarrow>
        reachable (fst (Observable_add_observer hp ob e cb kw))"
| remove: "reachable ob \<Longrightarrow> reachable (fst (Observable_remove_observer hp ob e cid))"
| notify: "reachable ob \<Longrightarrow> reachable (fst (Observable_notify run alive ob e event_args))"
| collect: "reachable ob \<Longrightarrow> reachable (Observable_collect k ob)"

section \<open>The loop of \<^verbatim>\<open>notify\<close>\<close>

declare notify_loop.simps(2) [simp del]

lemma WeakMethod_call_Some:
  "WeakMethod_call alive w = Some c \<Longrightarrow> c = bound w"
  by (cases w) (auto split: if_splits)

lemma merge_kwargs_Inr:
  "merge_kwargs event_args kw = Inr m \<Longrightarrow> m = event_args @ kw"
  by (auto simp: merge_kwargs_def split: option.splits)

lemma merge_kwargs_disjoint:
  "set (map fst kw) \<inter> set (map fst event_args) = {} \<Longrightarrow> merge_kwargs event_args kw = Inr (event_args @ kw)"
  by (auto simp: merge_kwargs_def find_None_iff split: option.splits)

lemma merge_kwargs_shared:
  "k \<in> set (map fst event_args) \<Longrightarrow> k \<in> set (map fst kw) \<Longrightarrow>
   \<exists>k'. merge_kwargs event_args kw = Inl (TypeError_multiple_values k')
       \<and> k' \<in> set (map fst event_args) \<and> k' \<in> set (map fst kw)"
proof (cases "List.find (\<lambda>k. k \<in> set (map fst event_args)) (map fst kw)")
  case None
  assume "k \<in> set (map fst event_args)" "k \<in> set (map fst kw)"
  then have "\<exists>x. x \<in> set (map fst kw) \<and> x \<in> set (map fst event_args)"
    by blast
  with None have False
    unfolding find_None_iff by blast
  then show ?thesis ..
next
  case (Some k')
  then have "k' \<in> set (map fst event_args)" "k' \<in> set (map fst kw)"
    by (auto simp: find_Some_iff)
  with Some show ?thesis by (simp add: merge_kwargs_def)
qed

lemma delivers_iff:
  "delivers run alive event_args ca \<longleftrightarrow>
     WeakMethod_call alive (callback ca) = Some (bound (callback ca))
     \<and> merge_kwargs event_args (kwargs ca) = Inr (event_args @ kwargs ca)
     \<and> run (bound (callback ca)) (event_args @ kwargs ca) = None"
  by (auto simp: delivers_def notify_loop.simps(2) dest: WeakMethod_call_Some merge_kwargs_Inr
      split: sum.splits option.splits)

lemma notify_loop_Cons_delivers:
  "delivers run alive event_args ca \<Longrightarrow>
   notify_loop run alive event_args (ca # rest) =
     (call_of event_args ca # fst (notify_loop run alive event_args rest),
      snd (notify_loop run alive event_args rest))"
  by (simp add: delivers_iff call_of_def notify_loop.simps(2) split: prod.splits)

lemma notify_loop_append_delivers:
  "\<forall>ca \<in> set xs. delivers run alive event_args ca \<Longrightarrow>
   notify_loop run alive event_args (xs @ ys) =
     (map (call_of event_args) xs @ fst (notify_loop run alive event_args ys),
      snd (notify_loop run alive event_args ys))"
  by (induction xs) (simp_all add: notify_loop_Cons_delivers)

lemma notify_loop_prefix:
  "\<exists>n. fst (notify_loop run alive event_args cas) = map (call_of event_args) (take n cas)"
proof (induction cas)
  case Nil
  then show ?case by simp
next
  case (Cons ca cas)
  then obtain n where n: "fst (notify_loop run alive event_args cas) = map (call_of event_args) (take n cas)"
    by blast
  show ?case
  proof (cases "delivers run alive event_args ca")
    case True
    then have "fst (notify_loop run alive event_args (ca # cas)) = map (call_of event_args) (take (Suc n) (ca # cas))"
      by (simp add: notify_loop_Cons_delivers n)
    then show ?thesis by blast
  next
    case False
    have "fst (notify_loop run alive event_args (ca # cas)) = map (call_of event_args) (take 0 (ca # cas))
        \<or> fst (notify_loop run alive event_args (ca # cas)) = map (call_of event_args) (take 1 (ca # cas))"
    proof (cases "merge_kwargs event_args (kwargs ca)")
      case (Inl e)
      then show ?thesis by (simp add: notify_loop.simps(2))
    next
      case (Inr m)
      then have m: "m = event_args @ kwargs ca" by (rule merge_kwargs_Inr)
      show ?thesis
      proof (cases "WeakMethod_call alive (callback ca)")
        case None
        with Inr show ?thesis by (simp add: notify_loop.simps(2))
      next
        case (Some c)
        then have c: "c = bound (callback ca)" by (rule WeakMethod_call_Some)
        from False Some Inr obtain x where "run c m = Some x"
          by (auto simp: delivers_iff m c)
        with Some Inr show ?thesis
          by (simp add: notify_loop.simps(2) call_of_def m c)
      qed
    qed
    then show ?thesis by blast
  qed
qed

lemma notify_loop_None:
  "snd (notify_loop run alive event_args cas) = None \<Longrightarrow>
   (\<forall>ca \<in> set cas. delivers run alive event_args ca)
   \<and> fst (notify_loop run alive event_args cas) = map (call_of event_args) cas"
proof (induction cas)
  case Nil
  then show ?case by simp
next
  case (Cons ca cas)
  have d: "delivers run alive event_args ca"
    using Cons.prems
    by (auto simp: delivers_iff notify_loop.simps(2) dest: WeakMethod_call_Some merge_kwargs_Inr
          split: sum.splits option.splits prod.splits)
  with Cons show ?case by (simp add: notify_loop_Cons_delivers)
qed

section \<open>Lazy creation of the per-event lists\<close>

lemma put_get_observer_list:
  "get_observer_list ob e = (ob1, ol) \<Longrightarrow> put_observer_list ob1 e ol = ob1"
  by (auto simp: get_observer_list_def put_observer_list_def map_upd_triv split: option.splits)

lemma registrations_get_observer_list:
  "registrations (fst (get_observer_list ob e)) e' = registrations ob e'"
  by (simp add: registrations_def get_observer_list_def ObserverList_init_def
      split: option.splits)

section \<open>Dictionary operations on ordinary keys\<close>

text \<open>
  For an ordinary key, a stored reference matches exactly when it refers to the key
  object, so the dictionary behaves as an association list over the key objects.
\<close>

lemma ref_matches_ordinary_key:
  assumes "ordinary_key hp s d" and "hash_of hp s = Some h" and "p \<in> set d"
  shows "ref_matches hp s h (fst p) = (referent (fst p) = s)"
  using assms
  by (auto simp: ordinary_key_def ref_matches_def list_all_iff split: if_splits)

lemma setitem_entries_by_owner:
  "\<forall>p \<in> set d. ref_matches hp s h (fst p) = (referent (fst p) = s) \<Longrightarrow>
   by_owner (setitem_entries hp s h v d) = AList.update s v (by_owner d)"
  by (induction d) (auto simp: by_owner_def)



lemma delitem_entries_subset: "set (delitem_entries hp k h d) \<subseteq> set d"
  by (induction d) auto

lemma delitem_entries_distinct:
  "distinct (map g d) \<Longrightarrow> distinct (map g (delitem_entries hp k h d))"
proof (induction d)
  case Nil
  then show ?case by simp
next
  case (Cons p d)
  have "g p \<notin> g ` set (delitem_entries hp k h d)" if "g p \<notin> g ` set d"
    using that delitem_entries_subset [of hp k h d] by blast
  with Cons show ?case by auto
qed

lemma map_fst_by_owner: "map fst (by_owner d) = map (\<lambda>p. referent (fst p)) d"
  by (simp add: by_owner_def)

lemma keys_by_owner: "fst ` set (by_owner d) = (\<lambda>p. referent (fst p)) ` set d"
  by (simp add: by_owner_def image_image)

lemma ObserverList_add_observer_ordinary:
  assumes key: "ordinary_key hp s (observers ol)"
    and func: "weakly_referenceable hp f"
  shows "snd (ObserverList_add_observer hp ol (BoundMethod s f) kw) = Inr s"
    and "by_owner (observers (fst (ObserverList_add_observer hp ol (BoundMethod s f) kw)))
           = AList.update s \<lparr>callback = WeakMethod s f, kwargs = kw\<rparr>
               (by_owner (observers ol))"
proof -
  from key obtain h where h: "hash_of hp s = Some h" and w: "weakly_referenceable hp s"
    by (auto simp: ordinary_key_def)
  have m: "\<forall>p \<in> set (observers ol). ref_matches hp s h (fst p) = (referent (fst p) = s)"
    using ref_matches_ordinary_key [OF key h] by blast
  show "snd (ObserverList_add_observer hp ol (BoundMethod s f) kw) = Inr s"
    by (simp add: ObserverList_add_observer_def WeakKeyDictionary_setitem_def h w func)
  show "by_owner (observers (fst (ObserverList_add_observer hp ol (BoundMethod s f) kw)))
           = AList.update s \<lparr>callback = WeakMethod s f, kwargs = kw\<rparr>
               (by_owner (observers ol))"
    by (simp add: ObserverList_add_observer_def WeakKeyDictionary_setitem_def h w func
        setitem_entries_by_owner [OF m])
qed


section \<open>The invariant of the lists\<close>

lemma list_all_update:
  "list_all P al \<Longrightarrow> P (k, v) \<Longrightarrow> list_all P (AList.update k v al)"
  by (induction al) auto

lemma wf_ObserverList_init: "wf_ObserverList ObserverList_init"
  by (simp add: wf_ObserverList_def ObserverList_init_def by_owner_def)

lemma add_observer_unchanged_or_stored:
  "fst (ObserverList_add_observer hp ol cb kw) = ol
   \<or> (\<exists>s f. cb = BoundMethod s f \<and> weakly_referenceable hp f
         \<and> weakly_referenceable hp s \<and> hash_of hp s \<noteq> None)"
  by (cases cb)
    (auto simp: ObserverList_add_observer_def WeakKeyDictionary_setitem_def
      split: option.splits)

lemma wf_ObserverList_add_observer:
  assumes wf: "wf_ObserverList ol"
    and key: "\<And>s. attr_self cb = Inr s \<Longrightarrow> ordinary_key hp s (observers ol)"
  shows "wf_ObserverList (fst (ObserverList_add_observer hp ol cb kw))"
proof -
  consider "fst (ObserverList_add_observer hp ol cb kw) = ol"
    | s f where "cb = BoundMethod s f" "weakly_referenceable hp f"
    using add_observer_unchanged_or_stored [of hp ol cb kw] by blast
  then show ?thesis
  proof cases
    case 1
    with wf show ?thesis by simp
  next
    case 2
    then have "ordinary_key hp s (observers ol)" using key by simp
    from ObserverList_add_observer_ordinary(2) [OF this 2(2), of kw] wf show ?thesis
      by (simp add: wf_ObserverList_def 2(1) AList.distinct_update list_all_update)
  qed
qed

lemma wf_ObserverList_sublist:
  assumes wf: "wf_ObserverList ol"
    and sub: "set d \<subseteq> set (observers ol)"
    and dist: "distinct (map (\<lambda>p. referent (fst p)) d)"
  shows "wf_ObserverList (ol\<lparr>observers := d\<rparr>)"
proof -
  from sub have "set (by_owner d) \<subseteq> set (by_owner (observers ol))"
    by (auto simp: by_owner_def)
  with wf have "list_all (\<lambda>p. weak_self (callback (snd p)) = fst p) (by_owner d)"
    by (auto simp: wf_ObserverList_def list_all_iff)
  with dist show ?thesis by (simp add: wf_ObserverList_def map_fst_by_owner)
qed

lemma wf_ObserverList_remove_observer:
  assumes wf: "wf_ObserverList ol"
  shows "wf_ObserverList (fst (ObserverList_remove_observer hp ol cid))"
proof -
  have "wf_ObserverList (ol\<lparr>observers := delitem_entries hp cid h (observers ol)\<rparr>)" for h
    using wf delitem_entries_subset [of hp cid h "observers ol"]
      delitem_entries_distinct [of "\<lambda>p. referent (fst p)" "observers ol" hp cid h]
    by (intro wf_ObserverList_sublist) (simp_all add: wf_ObserverList_def map_fst_by_owner)
  with wf show ?thesis
    by (auto simp: ObserverList_remove_observer_def WeakKeyDictionary_delitem_def
        split: sum.splits option.splits if_splits)
qed

lemma wf_ObserverList_collect:
  "wf_ObserverList ol \<Longrightarrow> wf_ObserverList (ObserverList_collect k ol)"
  unfolding ObserverList_collect_def WeakKeyDictionary_remove_def
  by (rule wf_ObserverList_sublist)
    (auto simp: wf_ObserverList_def map_fst_by_owner distinct_map_filter)

lemma wf_Observable_init: "wf_Observable Observable_init"
  by (simp add: wf_Observable_def Observable_init_def)

lemma wf_get_observer_list:
  "wf_Observable ob \<Longrightarrow> get_observer_list ob e = (ob1, ol) \<Longrightarrow>
   wf_Observable ob1 \<and> wf_ObserverList ol"
  by (auto simp: wf_Observable_def get_observer_list_def wf_ObserverList_init
      split: option.splits if_splits)

lemma get_observer_list_observers:
  "get_observer_list ob e = (ob1, ol) \<Longrightarrow> observers ol = registrations ob e"
  by (auto simp: get_observer_list_def registrations_def ObserverList_init_def
      split: option.splits)

lemma wf_put_observer_list:
  "wf_Observable ob \<Longrightarrow> wf_ObserverList ol \<Longrightarrow> wf_Observable (put_observer_list ob e ol)"
  by (simp add: wf_Observable_def put_observer_list_def)

lemma wf_Observable_add_observer:
  assumes wf: "wf_Observable ob"
    and key: "\<And>s. attr_self cb = Inr s \<Longrightarrow> ordinary_key hp s (registrations ob e)"
  shows "wf_Observable (fst (Observable_add_observer hp ob e cb kw))"
proof -
  obtain ob1 ol where g: "get_observer_list ob e = (ob1, ol)" by (cases "get_observer_list ob e")
  obtain ol' r where a: "ObserverList_add_observer hp ol cb kw = (ol', r)"
    by (cases "ObserverList_add_observer hp ol cb kw")
  from wf g have "wf_Observable ob1" "wf_ObserverList ol"
    by (auto dest: wf_get_observer_list)
  moreover from this(2) a key have "wf_ObserverList ol'"
    using wf_ObserverList_add_observer [of ol cb hp kw] get_observer_list_observers [OF g]
    by simp
  ultimately show ?thesis
    by (simp add: Observable_add_observer_def g a wf_put_observer_list)
qed

lemma wf_Observable_remove_observer:
  assumes "wf_Observable ob"
  shows "wf_Observable (fst (Observable_remove_observer hp ob e cid))"
proof -
  obtain ob1 ol where g: "get_observer_list ob e = (ob1, ol)" by (cases "get_observer_list ob e")
  obtain ol' r where a: "ObserverList_remove_observer hp ol cid = (ol', r)"
    by (cases "ObserverList_remove_observer hp ol cid")
  from assms g have "wf_Observable ob1" "wf_ObserverList ol"
    by (auto dest: wf_get_observer_list)
  moreover from this(2) a have "wf_ObserverList ol'"
    using wf_ObserverList_remove_observer [of ol hp cid] by simp
  ultimately show ?thesis
    by (simp add: Observable_remove_observer_def g a wf_put_observer_list)
qed

lemma wf_Observable_notify:
  "wf_Observable ob \<Longrightarrow> wf_Observable (fst (Observable_notify run alive ob e args))"
  by (auto simp: Observable_notify_def dest: wf_get_observer_list split: prod.splits)

lemma wf_Observable_collect:
  "wf_Observable ob \<Longrightarrow> wf_Observable (Observable_collect k ob)"
  by (auto simp: wf_Observable_def Observable_collect_def wf_ObserverList_collect)

lemma reachable_wf: "reachable ob \<Longrightarrow> wf_Observable ob"
  by (induction rule: reachable.induct)
    (simp_all add: wf_Observable_init wf_Observable_add_observer wf_Observable_remove_observer
      wf_Observable_notify wf_Observable_collect)

section \<open>The calls received by a registered owner\<close>

lemma registration_split:
  assumes "distinct (map fst (by_owner d))" and "map_of (by_owner d) s = Some ca"
  shows "\<exists>xs r ys. d = xs @ (r, ca) # ys \<and> referent r = s
           \<and> s \<notin> fst ` set (by_owner xs) \<and> s \<notin> fst ` set (by_owner ys)
           \<and> takeWhile (\<lambda>p. referent (fst p) \<noteq> s) d = xs"
proof -
  from assms(2) have "(s, ca) \<in> set (by_owner d)" by (rule map_of_SomeD)
  then obtain p where "p \<in> set d" and p: "referent (fst p) = s" "snd p = ca"
    by (auto simp: by_owner_def)
  then obtain xs ys where d: "d = xs @ p # ys" by (auto dest: split_list)
  from assms(1) have "distinct (map (\<lambda>p. referent (fst p)) d)"
    by (simp add: map_fst_by_owner)
  with d p have n: "s \<notin> fst ` set (by_owner xs)" "s \<notin> fst ` set (by_owner ys)"
    by (auto simp: keys_by_owner)
  then have "\<And>x. x \<in> set xs \<Longrightarrow> referent (fst x) \<noteq> s"
    by (force simp: keys_by_owner)
  then have "takeWhile (\<lambda>p. referent (fst p) \<noteq> s) d = xs"
    unfolding d using p by (simp add: takeWhile_append2)
  moreover from d p have "d = xs @ (fst p, ca) # ys" by (cases p) simp
  ultimately show ?thesis using n p by blast
qed

lemma values_append:
  "WeakKeyDictionary_values alive (xs @ ys) =
     WeakKeyDictionary_values alive xs @ WeakKeyDictionary_values alive ys"
  by (simp add: WeakKeyDictionary_values_def)

lemma values_Cons:
  "WeakKeyDictionary_values alive ((r, v) # ys) =
     (if referent r \<in> alive then v # WeakKeyDictionary_values alive ys
      else WeakKeyDictionary_values alive ys)"
  by (simp add: WeakKeyDictionary_values_def)

lemma values_owner:
  "list_all (\<lambda>p. weak_self (callback (snd p)) = fst p) (by_owner d) \<Longrightarrow>
   s \<notin> fst ` set (by_owner d) \<Longrightarrow>
   ca \<in> set (WeakKeyDictionary_values alive d) \<Longrightarrow> weak_self (callback ca) \<noteq> s"
  by (fastforce simp: WeakKeyDictionary_values_def list_all_iff by_owner_def image_iff)

lemma bound_eq: "bound w = BoundMethod s g \<longleftrightarrow> w = WeakMethod s g"
  by (cases w) auto

lemma invocations_Nil [simp]: "invocations cb [] = []"
  by (simp add: invocations_def)

lemma invocations_append:
  "invocations cb (xs @ ys) = invocations cb xs @ invocations cb ys"
  by (simp add: invocations_def)

lemma invocations_other_owner:
  "\<forall>ca \<in> set cas. weak_self (callback ca) \<noteq> s \<Longrightarrow>
   invocations (BoundMethod s g) (map (call_of event_args) cas) = []"
  by (auto simp: invocations_def call_of_def filter_empty_conv bound_eq)

lemma invocations_take_other_owner:
  "\<forall>ca \<in> set cas. weak_self (callback ca) \<noteq> s \<Longrightarrow>
   invocations (BoundMethod s g) (map (call_of event_args) (take n cas)) = []"
  by (rule invocations_other_owner) (auto dest: in_set_takeD)

lemma invocations_own:
  "invocations (BoundMethod s g) [call_of event_args \<lparr>callback = WeakMethod s f, kwargs = kw\<rparr>]
     = (if g = f then [event_args @ kw] else [])"
  by (simp add: invocations_def call_of_def)

lemma registered_values:
  assumes wf: "wf_ObserverList ol"
    and reg: "map_of (by_owner (observers ol)) s = Some ca"
  shows "\<exists>pre post.
     WeakKeyDictionary_values alive (observers ol) = pre @ (if s \<in> alive then [ca] else []) @ post
     \<and> preceding alive s (observers ol) = pre
     \<and> (\<forall>c \<in> set pre. weak_self (callback c) \<noteq> s)
     \<and> (\<forall>c \<in> set post. weak_self (callback c) \<noteq> s)"
proof -
  from wf have dist: "distinct (map fst (by_owner (observers ol)))"
    and own: "list_all (\<lambda>p. weak_self (callback (snd p)) = fst p) (by_owner (observers ol))"
    by (simp_all add: wf_ObserverList_def)
  from registration_split [OF dist reg] obtain xs r ys
    where d: "observers ol = xs @ (r, ca) # ys" and r: "referent r = s"
      and nx: "s \<notin> fst ` set (by_owner xs)" and ny: "s \<notin> fst ` set (by_owner ys)"
      and tw: "takeWhile (\<lambda>p. referent (fst p) \<noteq> s) (observers ol) = xs"
    by blast
  from own d have ox: "list_all (\<lambda>p. weak_self (callback (snd p)) = fst p) (by_owner xs)"
    and oy: "list_all (\<lambda>p. weak_self (callback (snd p)) = fst p) (by_owner ys)"
    by (simp_all add: by_owner_def)
  let ?pre = "WeakKeyDictionary_values alive xs"
  let ?post = "WeakKeyDictionary_values alive ys"
  have "WeakKeyDictionary_values alive (observers ol)
      = ?pre @ (if s \<in> alive then [ca] else []) @ ?post"
    by (simp add: d r values_append values_Cons)
  moreover have "preceding alive s (observers ol) = ?pre"
    by (simp add: preceding_def tw)
  moreover have "\<forall>c \<in> set ?pre. weak_self (callback c) \<noteq> s"
    using values_owner [OF ox nx] by blast
  moreover have "\<forall>c \<in> set ?post. weak_self (callback c) \<noteq> s"
    using values_owner [OF oy ny] by blast
  ultimately show ?thesis by blast
qed

lemma invocations_prefix_of_values:
  assumes pre: "\<forall>c \<in> set pre. weak_self (callback c) \<noteq> s"
    and post: "\<forall>c \<in> set post. weak_self (callback c) \<noteq> s"
  shows "invocations (BoundMethod s g)
           (map (call_of event_args)
              (take n (pre @ (if live then [\<lparr>callback = WeakMethod s f, kwargs = kw\<rparr>] else []) @ post)))
         = (if live \<and> length pre < n \<and> g = f then [event_args @ kw] else [])"
proof (cases "live \<and> length pre < n")
  case True
  then obtain m where m: "n - length pre = Suc m" by (cases "n - length pre") auto
  let ?ca = "\<lparr>callback = WeakMethod s f, kwargs = kw\<rparr>"
  from True m have "take n (pre @ (if live then [?ca] else []) @ post) = pre @ [?ca] @ take m post"
    by simp
  then have "map (call_of event_args) (take n (pre @ (if live then [?ca] else []) @ post))
      = map (call_of event_args) pre @ [call_of event_args ?ca]
          @ map (call_of event_args) (take m post)"
    by simp
  then have "invocations (BoundMethod s g)
        (map (call_of event_args) (take n (pre @ (if live then [?ca] else []) @ post)))
      = (if g = f then [event_args @ kw] else [])"
    by (simp only: invocations_append invocations_other_owner [OF pre]
        invocations_take_other_owner [OF post] invocations_own append_Nil append_Nil2)
  with True show ?thesis by simp
next
  case False
  then show ?thesis
    by (auto simp: invocations_append invocations_take_other_owner [OF pre]
        invocations_take_other_owner [OF post])
qed

lemma registered_at_most_once:
  assumes wf: "wf_ObserverList ol"
    and reg: "map_of (by_owner (observers ol)) s = Some \<lparr>callback = WeakMethod s f, kwargs = kw\<rparr>"
  shows "invocations (BoundMethod s g) (fst (ObserverList_notify run alive ol event_args)) = []
       \<or> (g = f \<and> invocations (BoundMethod s g) (fst (ObserverList_notify run alive ol event_args))
                    = [event_args @ kw])"
proof -
  from registered_values [OF wf reg, of alive] obtain pre post
    where v: "WeakKeyDictionary_values alive (observers ol)
        = pre @ (if s \<in> alive then [\<lparr>callback = WeakMethod s f, kwargs = kw\<rparr>] else []) @ post"
      and pre: "\<forall>c \<in> set pre. weak_self (callback c) \<noteq> s"
      and post: "\<forall>c \<in> set post. weak_self (callback c) \<noteq> s"
    by blast
  obtain n where "fst (ObserverList_notify run alive ol event_args)
      = map (call_of event_args) (take n (WeakKeyDictionary_values alive (observers ol)))"
    unfolding ObserverList_notify_def using notify_loop_prefix by blast
  then have "invocations (BoundMethod s g) (fst (ObserverList_notify run alive ol event_args))
      = (if s \<in> alive \<and> length pre < n \<and> g = f then [event_args @ kw] else [])"
    by (simp only: v invocations_prefix_of_values [OF pre post])
  then show ?thesis by (simp split: if_splits)
qed

lemma registered_completed:
  assumes wf: "wf_ObserverList ol"
    and reg: "map_of (by_owner (observers ol)) s = Some \<lparr>callback = WeakMethod s f, kwargs = kw\<rparr>"
    and live: "s \<in> alive"
    and ok: "snd (ObserverList_notify run alive ol event_args) = None"
  shows "invocations (BoundMethod s f) (fst (ObserverList_notify run alive ol event_args))
           = [event_args @ kw]"
proof -
  from registered_values [OF wf reg, of alive] obtain pre post
    where v: "WeakKeyDictionary_values alive (observers ol)
        = pre @ (if s \<in> alive then [\<lparr>callback = WeakMethod s f, kwargs = kw\<rparr>] else []) @ post"
      and pre: "\<forall>c \<in> set pre. weak_self (callback c) \<noteq> s"
      and post: "\<forall>c \<in> set post. weak_self (callback c) \<noteq> s"
    by blast
  let ?vals = "WeakKeyDictionary_values alive (observers ol)"
  from ok have "fst (ObserverList_notify run alive ol event_args)
      = map (call_of event_args) (take (length ?vals) ?vals)"
    unfolding ObserverList_notify_def by (simp add: notify_loop_None)
  then have "invocations (BoundMethod s f) (fst (ObserverList_notify run alive ol event_args))
      = (if s \<in> alive \<and> length pre < length ?vals \<and> f = f then [event_args @ kw] else [])"
    by (simp only: v invocations_prefix_of_values [OF pre post])
  moreover from live have "length pre < length ?vals" by (simp add: v)
  ultimately show ?thesis using live by simp
qed

lemma registered_reached:
  assumes wf: "wf_ObserverList ol"
    and reg: "map_of (by_owner (observers ol)) s = Some \<lparr>callback = WeakMethod s f, kwargs = kw\<rparr>"
    and live: "s \<in> alive" "f \<in> alive"
    and disj: "set (map fst kw) \<inter> set (map fst event_args) = {}"
    and before: "\<forall>c \<in> set (preceding alive s (observers ol)). delivers run alive event_args c"
  shows "invocations (BoundMethod s f) (fst (ObserverList_notify run alive ol event_args))
           = [event_args @ kw]"
proof -
  let ?ca = "\<lparr>callback = WeakMethod s f, kwargs = kw\<rparr>"
  from registered_values [OF wf reg, of alive] live obtain pre post
    where v: "WeakKeyDictionary_values alive (observers ol) = pre @ ?ca # post"
      and p: "preceding alive s (observers ol) = pre"
      and pre: "\<forall>c \<in> set pre. weak_self (callback c) \<noteq> s"
      and post: "\<forall>c \<in> set post. weak_self (callback c) \<noteq> s"
    by auto
  from before p have d: "\<forall>c \<in> set pre. delivers run alive event_args c" by simp
  obtain n where n: "fst (notify_loop run alive event_args post)
      = map (call_of event_args) (take n post)"
    using notify_loop_prefix by blast
  have own: "invocations (BoundMethod s f) (fst (notify_loop run alive event_args (?ca # post)))
      = [event_args @ kw]"
  proof (cases "run (BoundMethod s f) (event_args @ kw)")
    case None
    with live have "delivers run alive event_args ?ca"
      by (simp add: delivers_iff merge_kwargs_disjoint [OF disj])
    then have "fst (notify_loop run alive event_args (?ca # post))
        = [call_of event_args ?ca] @ map (call_of event_args) (take n post)"
      by (simp add: notify_loop_Cons_delivers n)
    then show ?thesis
      by (simp only: invocations_append invocations_own
          invocations_take_other_owner [OF post]) simp
  next
    case (Some x)
    with live have "fst (notify_loop run alive event_args (?ca # post))
        = [call_of event_args ?ca]"
      by (simp add: notify_loop.simps(2) merge_kwargs_disjoint [OF disj] call_of_def)
    then show ?thesis by (simp only: invocations_own) simp
  qed
  have "fst (ObserverList_notify run alive ol event_args)
      = map (call_of event_args) pre @ fst (notify_loop run alive event_args (?ca # post))"
    by (simp add: ObserverList_notify_def v notify_loop_append_delivers [OF d])
  then show ?thesis
    by (simp only: invocations_append invocations_other_owner [OF pre] own) simp
qed

lemma Observable_notify_Some:
  "observer_lists ob e = Some ol \<Longrightarrow>
   Observable_notify run alive ob e event_args = (ob, ObserverList_notify run alive ol event_args)"
  by (simp add: Observable_notify_def get_observer_list_def)

lemma Observable_add_observer_list:
  assumes "Observable_add_observer hp ob e cb kw = (ob1, r)"
  shows "\<exists>ol. observers ol = registrations ob e
           \<and> r = snd (ObserverList_add_observer hp ol cb kw)
           \<and> observer_lists ob1 e = Some (fst (ObserverList_add_observer hp ol cb kw))"
proof -
  obtain ob0 ol where g: "get_observer_list ob e = (ob0, ol)"
    by (cases "get_observer_list ob e")
  then have "observers ol = registrations ob e" by (rule get_observer_list_observers)
  moreover from assms g have "r = snd (ObserverList_add_observer hp ol cb kw)"
    and "observer_lists ob1 e = Some (fst (ObserverList_add_observer hp ol cb kw))"
    by (auto simp: Observable_add_observer_def put_observer_list_def split: prod.splits)
  ultimately show ?thesis by blast
qed

lemma Observable_add_observer_BoundMethod:
  assumes add: "Observable_add_observer hp ob e (BoundMethod s f) kw = (ob1, r)"
    and key: "ordinary_key hp s (registrations ob e)"
    and func: "weakly_referenceable hp f"
  shows "r = Inr s"
    and "\<exists>ol1. observer_lists ob1 e = Some ol1
          \<and> by_owner (observers ol1)
              = AList.update s \<lparr>callback = WeakMethod s f, kwargs = kw\<rparr>
                  (by_owner (registrations ob e))"
proof -
  from Observable_add_observer_list [OF add] obtain ol
    where ol: "observers ol = registrations ob e"
      and r: "r = snd (ObserverList_add_observer hp ol (BoundMethod s f) kw)"
      and ol1: "observer_lists ob1 e
                  = Some (fst (ObserverList_add_observer hp ol (BoundMethod s f) kw))"
    by blast
  from key ol have k: "ordinary_key hp s (observers ol)" by simp
  show "r = Inr s"
    using ObserverList_add_observer_ordinary(1) [OF k func] r by simp
  show "\<exists>ol1. observer_lists ob1 e = Some ol1
          \<and> by_owner (observers ol1)
              = AList.update s \<lparr>callback = WeakMethod s f, kwargs = kw\<rparr>
                  (by_owner (registrations ob e))"
    using ObserverList_add_observer_ordinary(2) [OF k func] ol1 ol by simp
qed






section \<open>Callbacks that are not bound methods\<close>

text \<open>
  C10. \<^verbatim>\<open>add_observer\<close> given a plain function or lambda, which has no
  \<^verbatim>\<open>__self__\<close>, raises \<^verbatim>\<open>AttributeError\<close> and leaves the \<^verbatim>\<open>ObserverList\<close> exactly as it
  was. Through \<^verbatim>\<open>Observable.add_observer\<close> the same exception comes out; the only
  change is the lazily created (empty) list of the event, and the registrations of every
  event are what they were.
\<close>

theorem add_observer_plain_function:
  "ObserverList_add_observer hp ol (PlainFunction f) kw = (ol, Inl AttributeError)
   \<and> Observable_add_observer hp ob e (PlainFunction f) kw
      = (fst (get_observer_list ob e), Inl AttributeError)
   \<and> registrations (fst (get_observer_list ob e)) e' = registrations ob e'"
proof (intro conjI)
  show a: "ObserverList_add_observer hp l (PlainFunction f) kw = (l, Inl AttributeError)" for l
    by (simp add: ObserverList_add_observer_def)
  show "Observable_add_observer hp ob e (PlainFunction f) kw
      = (fst (get_observer_list ob e), Inl AttributeError)"
    by (simp add: Observable_add_observer_def a put_get_observer_list split: prod.splits)
  show "registrations (fst (get_observer_list ob e)) e' = registrations ob e'"
    by (rule registrations_get_observer_list)
qed

section \<open>Registration and removal\<close>







section \<open>Registration followed by notification\<close>

lemma kwargs_union:
  "set (map fst kw) \<inter> set (map fst event_args) = {} \<Longrightarrow>
   map_of (event_args @ kw) = map_of event_args ++ map_of kw"
proof -
  assume "set (map fst kw) \<inter> set (map fst event_args) = {}"
  then have "dom (map_of kw) \<inter> dom (map_of event_args) = {}"
    by (simp add: dom_map_of_conv_image_fst)
  then have "map_of kw ++ map_of event_args = map_of event_args ++ map_of kw"
    by (rule map_add_comm)
  then show ?thesis by simp
qed

text \<open>
  C1, as stated, fails in three ways, in each of which the owner and the function of the
  callback exist and the keyword arguments share no key. A registration that \<^verbatim>\<open>notify\<close>
  reaches first can end the loop: owner 2 is registered before owner 3 and its callback
  raises, and the callback of owner 3 is not invoked. An unhashable owner is refused:
  \<^verbatim>\<open>add_observer\<close> raises \<^verbatim>\<open>TypeError\<close> and the callback is not invoked. An owner
  registered before under another hash is stored a second time, and its callback is
  invoked twice.
\<close>

theorem add_then_notify_counterexample:
  "(3::nat) \<in> {2, 3, 20, 30} \<and> (30::nat) \<in> {2, 3, 20, 30}
   \<and> set (map fst [(''phase'', 1::int)]) \<inter> set (map fst [(''count'', 5::int)]) = {}
   \<and> invocations (BoundMethod 3 30)
     (fst (snd (Observable_notify (raising 2 ''boom'') {2, 3, 20, 30}
        (fst (Observable_add_observer (ordinary {2, 3, 20, 30})
           (fst (Observable_add_observer (ordinary {2, 3, 20, 30}) Observable_init ''tick''
                  (BoundMethod 2 20) []))
           ''tick'' (BoundMethod 3 30) [(''phase'', 1)]))
        ''tick'' [(''count'', 5)]))) = []
   \<and> snd (snd (Observable_notify (raising 2 ''boom'') {2, 3, 20, 30}
        (fst (Observable_add_observer (ordinary {2, 3, 20, 30})
           (fst (Observable_add_observer (ordinary {2, 3, 20, 30}) Observable_init ''tick''
                  (BoundMethod 2 20) []))
           ''tick'' (BoundMethod 3 30) [(''phase'', 1)]))
        ''tick'' [(''count'', 5)])) = Some (Raised ''boom'')
   \<and> snd (Observable_add_observer (unhashable 2 (ordinary {2, 20}))
          (Observable_init :: int Observable) ''tick'' (BoundMethod 2 20) [(''phase'', 1)])
       = Inl TypeError_unhashable
   \<and> invocations (BoundMethod 2 20)
     (fst (snd (Observable_notify quiet {2, 20}
        (fst (Observable_add_observer (unhashable 2 (ordinary {2, 20}))
           Observable_init ''tick'' (BoundMethod 2 20) [(''phase'', 1)]))
        ''tick'' [(''count'', 5)]))) = []
   \<and> invocations (BoundMethod 2 20)
     (fst (snd (Observable_notify quiet {2, 20}
        (fst (Observable_add_observer (rehashed 2 99 (ordinary {2, 20}))
           (fst (Observable_add_observer (ordinary {2, 20}) Observable_init ''tick''
                  (BoundMethod 2 20) [(''phase'', 0)]))
           ''tick'' (BoundMethod 2 20) [(''phase'', 1)]))
        ''tick'' [(''count'', 5)])))
       = [[(''count'', 5), (''phase'', 0)], [(''count'', 5), (''phase'', 1)]]"
  by (simp add: Observable_add_observer_def get_observer_list_def Observable_init_def
        ObserverList_add_observer_def ObserverList_init_def put_observer_list_def
        WeakKeyDictionary_setitem_def ordinary_def unhashable_def rehashed_def ref_matches_def
        Observable_notify_def ObserverList_notify_def WeakKeyDictionary_values_def
        notify_loop.simps(2) merge_kwargs_def raising_def quiet_def invocations_def)

text \<open>
  C1, amended. Take an Observable whose lists satisfy the invariant, as every one reached
  through registrations of ordinary keys does, and a bound method \<open>cb\<close> whose owner is an ordinary key of the list of the
  event (it exists, can be weakly referenced and hashed, equals itself and no other
  registered owner, and if registered already, then under its present hash) and whose
  function can be weakly referenced. After \<^verbatim>\<open>add_observer(event, cb, **kw)\<close>, which
  returns the owner, with the owner and the function existing and no key shared by
  \<open>kw\<close> and the event arguments, the \<^verbatim>\<open>notify\<close> that follows invokes \<open>cb\<close> at most
  once and only with the event arguments followed by \<open>kw\<close>, which as a mapping is the
  union of the two. It invokes \<open>cb\<close> exactly once whenever every registration reached
  before it delivers, and so whenever \<^verbatim>\<open>notify\<close> raises nothing.
\<close>

theorem add_then_notify_invokes_once:
  assumes wf: "wf_Observable ob"
    and key: "ordinary_key hp s (registrations ob e)"
    and func: "weakly_referenceable hp f"
    and live: "s \<in> alive" "f \<in> alive"
    and disj: "set (map fst kw) \<inter> set (map fst event_args) = {}"
    and add: "Observable_add_observer hp ob e (BoundMethod s f) kw = (ob1, r)"
    and notify: "Observable_notify run alive ob1 e event_args = (ob2, calls, err)"
  shows "r = Inr s
    \<and> (invocations (BoundMethod s f) calls = []
        \<or> invocations (BoundMethod s f) calls = [event_args @ kw])
    \<and> ((\<forall>c \<in> set (preceding alive s (registrations ob1 e)). delivers run alive event_args c)
        \<longrightarrow> invocations (BoundMethod s f) calls = [event_args @ kw])
    \<and> (err = None \<longrightarrow> invocations (BoundMethod s f) calls = [event_args @ kw])
    \<and> map_of (event_args @ kw) = map_of event_args ++ map_of kw"
proof -
  let ?ca = "\<lparr>callback = WeakMethod s f, kwargs = kw\<rparr>"
  from Observable_add_observer_BoundMethod [OF add key func] obtain ol1
    where r: "r = Inr s" and ol1: "observer_lists ob1 e = Some ol1"
      and obs: "by_owner (observers ol1) = AList.update s ?ca (by_owner (registrations ob e))"
    by blast
  from wf add key have "wf_Observable ob1"
    using wf_Observable_add_observer [of ob "BoundMethod s f" hp e kw] by simp
  with ol1 have wf1: "wf_ObserverList ol1" by (simp add: wf_Observable_def)
  have reg: "map_of (by_owner (observers ol1)) s = Some ?ca"
    by (simp add: obs AList.update_conv')
  have regs: "registrations ob1 e = observers ol1"
    by (simp add: registrations_def ol1)
  from notify ol1 have n: "ObserverList_notify run alive ol1 event_args = (calls, err)"
    by (simp add: Observable_notify_Some)
  have "invocations (BoundMethod s f) calls = []
        \<or> invocations (BoundMethod s f) calls = [event_args @ kw]"
    using registered_at_most_once [OF wf1 reg, where g = f and run = run and alive = alive
        and event_args = event_args] by (auto simp: n)
  moreover have "invocations (BoundMethod s f) calls = [event_args @ kw]"
    if "\<forall>c \<in> set (preceding alive s (registrations ob1 e)). delivers run alive event_args c"
    using registered_reached [OF wf1 reg live disj, where run = run] that
    by (simp add: n regs)
  moreover have "invocations (BoundMethod s f) calls = [event_args @ kw]" if "err = None"
    using registered_completed [OF wf1 reg live(1), where run = run and event_args = event_args]
      that by (simp add: n)
  ultimately show ?thesis using r kwargs_union [OF disj] by blast
qed

theorem add_then_notify_invokes_once_witness:
  "wf_Observable (Observable_init :: int Observable)
   \<and> ordinary_key (ordinary {2, 20}) 2 (registrations (Observable_init :: int Observable) ''tick'')
   \<and> weakly_referenceable (ordinary {2, 20}) 20
   \<and> (2::nat) \<in> {2, 20} \<and> (20::nat) \<in> {2, 20}
   \<and> set (map fst [(''phase'', 1::int)]) \<inter> set (map fst [(''count'', 5::int)]) = {}
   \<and> preceding {2, 20} 2
        (registrations
          (fst (Observable_add_observer (ordinary {2, 20}) (Observable_init :: int Observable)
                 ''tick'' (BoundMethod 2 20) [(''phase'', 1)])) ''tick'') = []
   \<and> invocations (BoundMethod 2 20)
        (fst (snd (Observable_notify quiet {2, 20}
          (fst (Observable_add_observer (ordinary {2, 20}) Observable_init ''tick''
                 (BoundMethod 2 20) [(''phase'', 1)]))
          ''tick'' [(''count'', 5)])))
      = [[(''count'', 5), (''phase'', 1)]]"
proof -
  let ?hp = "ordinary {2, 20}"
  let ?add = "Observable_add_observer ?hp (Observable_init :: int Observable) ''tick''
                 (BoundMethod 2 20) [(''phase'', 1)]"
  let ?notify = "Observable_notify quiet {2, 20} (fst ?add) ''tick'' [(''count'', 5)]"
  have k: "ordinary_key ?hp 2 (registrations (Observable_init :: int Observable) ''tick'')"
    by (simp add: registrations_def Observable_init_def ordinary_key_def ordinary_def)
  have w: "weakly_referenceable ?hp 20" by (simp add: ordinary_def)
  have p: "preceding {2, 20} 2 (registrations (fst ?add) ''tick'') = []"
    by (simp add: Observable_add_observer_def get_observer_list_def Observable_init_def
        ObserverList_add_observer_def ObserverList_init_def put_observer_list_def
        WeakKeyDictionary_setitem_def ordinary_def
        registrations_def preceding_def WeakKeyDictionary_values_def)
  have d: "set (map fst [(''phase'', 1::int)]) \<inter> set (map fst [(''count'', 5::int)]) = {}"
    by simp
  have a: "?add = (fst ?add, snd ?add)" by simp
  have n: "?notify = (fst ?notify, fst (snd ?notify), snd (snd ?notify))" by simp
  have "(2::nat) \<in> {2, 20}" "(20::nat) \<in> {2, 20}" by simp_all
  from add_then_notify_invokes_once [OF wf_Observable_init k w this d a n] p
  have "invocations (BoundMethod 2 20) (fst (snd ?notify)) = [[(''count'', 5)] @ [(''phase'', 1)]]"
    by simp
  with k w p d show ?thesis by (simp add: wf_Observable_init)
qed

section \<open>One registration per owner and event\<close>

lemma filter_key_distinct:
  "distinct (map fst d) \<Longrightarrow> map_of d s = Some v \<Longrightarrow> filter (\<lambda>p. fst p = s) d = [(s, v)]"
proof (induction d)
  case Nil
  then show ?case by simp
next
  case (Cons p d)
  show ?case
  proof (cases "fst p = s")
    case True
    with Cons.prems have "s \<notin> fst ` set d" and "p = (s, v)" by (auto simp: prod_eq_iff)
    then have "filter (\<lambda>p. fst p = s) d = []" by (auto simp: filter_empty_conv)
    with True \<open>p = (s, v)\<close> show ?thesis by simp
  next
    case False
    with Cons show ?thesis by (cases p) auto
  qed
qed

text \<open>
  C4, as stated, fails for an owner whose hash changes: owner 2 registers a callback,
  its hash becomes 99, and it registers a second callback for the same event. The first
  registration is not found under the new hash, so the list holds two registrations of
  owner 2 and \<^verbatim>\<open>notify\<close> calls both callbacks.
\<close>

theorem second_registration_overwrites_counterexample:
  "by_owner (registrations (fst (Observable_add_observer (rehashed 2 99 (ordinary {2, 20, 21}))
          (fst (Observable_add_observer (ordinary {2, 20, 21}) (Observable_init :: int Observable) ''tick''
            (BoundMethod 2 20) [(''phase'', 1)]))
          ''tick'' (BoundMethod 2 21) [(''phase'', 2)])) ''tick'')
     = [(2, \<lparr>callback = WeakMethod 2 20, kwargs = [(''phase'', 1)]\<rparr>),
        (2, \<lparr>callback = WeakMethod 2 21, kwargs = [(''phase'', 2)]\<rparr>)]
   \<and> fst (snd (Observable_notify quiet {2, 20, 21}
        (fst (Observable_add_observer (rehashed 2 99 (ordinary {2, 20, 21}))
          (fst (Observable_add_observer (ordinary {2, 20, 21}) (Observable_init :: int Observable) ''tick''
            (BoundMethod 2 20) [(''phase'', 1)]))
          ''tick'' (BoundMethod 2 21) [(''phase'', 2)]))
        ''tick'' [(''count'', 5)]))
     = [(BoundMethod 2 20, [(''count'', 5), (''phase'', 1)]),
        (BoundMethod 2 21, [(''count'', 5), (''phase'', 2)])]"
  by (simp add: Observable_add_observer_def get_observer_list_def Observable_init_def
        ObserverList_add_observer_def ObserverList_init_def put_observer_list_def
        WeakKeyDictionary_setitem_def ordinary_def rehashed_def ref_matches_def
        registrations_def by_owner_def
        Observable_notify_def ObserverList_notify_def WeakKeyDictionary_values_def
        notify_loop.simps(2) merge_kwargs_def quiet_def)

text \<open>
  C4, amended. Take an Observable whose lists satisfy the invariant, as every one reached
  through registrations of ordinary keys does, and an owner that at each of two \<^verbatim>\<open>add_observer\<close> calls for the same event
  is an ordinary key of the list of the event (it exists, can be weakly referenced and
  hashed, equals itself and no other registered owner, and if registered already, then
  under its present hash), the functions of both callbacks being weakly referenceable.
  The second call raises nothing, returns the owner and replaces the first registration:
  the list of the event has one entry per owner, and the one of this owner is the second
  callback with its keyword arguments. In the \<^verbatim>\<open>notify\<close> that follows, no method of the
  owner other than the second callback is invoked, that one at most once and with the
  event arguments followed by its own keyword arguments; when the owner exists and
  \<^verbatim>\<open>notify\<close> raises nothing, it is invoked exactly once.
\<close>

theorem second_registration_overwrites:
  assumes wf: "wf_Observable ob"
    and key1: "ordinary_key hp1 s (registrations ob e)"
    and func1: "weakly_referenceable hp1 f1"
    and add1: "Observable_add_observer hp1 ob e (BoundMethod s f1) kw1 = (ob1, r1)"
    and key2: "ordinary_key hp2 s (registrations ob1 e)"
    and func2: "weakly_referenceable hp2 f2"
    and add2: "Observable_add_observer hp2 ob1 e (BoundMethod s f2) kw2 = (ob2, r2)"
    and notify: "Observable_notify run alive ob2 e event_args = (ob3, calls, err)"
  shows "r2 = Inr s
    \<and> distinct (map fst (by_owner (registrations ob2 e)))
    \<and> filter (\<lambda>p. fst p = s) (by_owner (registrations ob2 e))
        = [(s, \<lparr>callback = WeakMethod s f2, kwargs = kw2\<rparr>)]
    \<and> (invocations (BoundMethod s g) calls = []
        \<or> (g = f2 \<and> invocations (BoundMethod s g) calls = [event_args @ kw2]))
    \<and> (s \<in> alive \<and> err = None \<longrightarrow>
          invocations (BoundMethod s f2) calls = [event_args @ kw2])"
proof -
  let ?ca = "\<lparr>callback = WeakMethod s f2, kwargs = kw2\<rparr>"
  from Observable_add_observer_BoundMethod [OF add2 key2 func2] obtain ol2
    where r: "r2 = Inr s" and ol2: "observer_lists ob2 e = Some ol2"
      and obs: "by_owner (observers ol2) = AList.update s ?ca (by_owner (registrations ob1 e))"
    by blast
  from wf add1 key1 have "wf_Observable ob1"
    using wf_Observable_add_observer [of ob "BoundMethod s f1" hp1 e kw1] by simp
  with add2 key2 have "wf_Observable ob2"
    using wf_Observable_add_observer [of ob1 "BoundMethod s f2" hp2 e kw2] by simp
  with ol2 have wf2: "wf_ObserverList ol2" by (simp add: wf_Observable_def)
  then have dist: "distinct (map fst (by_owner (observers ol2)))"
    by (simp add: wf_ObserverList_def)
  have reg: "map_of (by_owner (observers ol2)) s = Some ?ca"
    by (simp add: obs AList.update_conv')
  have regs: "registrations ob2 e = observers ol2"
    by (simp add: registrations_def ol2)
  from notify ol2 have n: "ObserverList_notify run alive ol2 event_args = (calls, err)"
    by (simp add: Observable_notify_Some)
  have "invocations (BoundMethod s g) calls = []
        \<or> (g = f2 \<and> invocations (BoundMethod s g) calls = [event_args @ kw2])"
    using registered_at_most_once [OF wf2 reg, where g = g and run = run and alive = alive
        and event_args = event_args] by (simp add: n)
  moreover have "invocations (BoundMethod s f2) calls = [event_args @ kw2]"
    if "s \<in> alive" "err = None"
    using registered_completed [OF wf2 reg that(1), where run = run and event_args = event_args]
      that(2) by (simp add: n)
  ultimately show ?thesis
    using r dist filter_key_distinct [OF dist reg] by (simp add: regs)
qed

theorem second_registration_overwrites_witness:
  "wf_Observable (Observable_init :: int Observable)
   \<and> ordinary_key (ordinary {2, 20, 21}) 2 (registrations (Observable_init :: int Observable) ''tick'')
   \<and> weakly_referenceable (ordinary {2, 20, 21}) 20
   \<and> ordinary_key (ordinary {2, 20, 21}) 2
        (registrations (fst (Observable_add_observer (ordinary {2, 20, 21}) (Observable_init :: int Observable) ''tick''
            (BoundMethod 2 20) [(''phase'', 1)])) ''tick'')
   \<and> weakly_referenceable (ordinary {2, 20, 21}) 21
   \<and> by_owner (registrations (fst (Observable_add_observer (ordinary {2, 20, 21})
          (fst (Observable_add_observer (ordinary {2, 20, 21}) (Observable_init :: int Observable) ''tick''
            (BoundMethod 2 20) [(''phase'', 1)]))
          ''tick'' (BoundMethod 2 21) [(''phase'', 2)])) ''tick'')
      = [(2, \<lparr>callback = WeakMethod 2 21, kwargs = [(''phase'', 2)]\<rparr>)]
   \<and> (2::nat) \<in> {2, 20, 21}
   \<and> snd (Observable_notify quiet {2, 20, 21}
        (fst (Observable_add_observer (ordinary {2, 20, 21})
          (fst (Observable_add_observer (ordinary {2, 20, 21}) (Observable_init :: int Observable) ''tick''
            (BoundMethod 2 20) [(''phase'', 1)]))
          ''tick'' (BoundMethod 2 21) [(''phase'', 2)])) ''tick'' [(''count'', 5)])
      = ([(BoundMethod 2 21, [(''count'', 5), (''phase'', 2)])], None)
   \<and> invocations (BoundMethod 2 20)
        [(BoundMethod 2 21, [(''count'', 5), (''phase'', 2::int)])] = []"
proof -
  let ?hp = "ordinary {2, 20, 21}"
  let ?add1 = "Observable_add_observer ?hp (Observable_init :: int Observable) ''tick''
            (BoundMethod 2 20) [(''phase'', 1)]"
  let ?add2 = "Observable_add_observer ?hp (fst ?add1) ''tick'' (BoundMethod 2 21) [(''phase'', 2)]"
  let ?calls = "[(BoundMethod 2 21, [(''count'', 5), (''phase'', 2::int)])]"
  let ?notify = "Observable_notify quiet {2, 20, 21} (fst ?add2) ''tick'' [(''count'', 5)]"
  have k1: "ordinary_key ?hp 2 (registrations (Observable_init :: int Observable) ''tick'')"
    by (simp add: registrations_def Observable_init_def ordinary_key_def ordinary_def)
  have r1: "registrations (fst ?add1) ''tick''
      = [(Ref 2 2, \<lparr>callback = WeakMethod 2 20, kwargs = [(''phase'', 1)]\<rparr>)]"
    by (simp add: Observable_add_observer_def get_observer_list_def Observable_init_def
        ObserverList_add_observer_def ObserverList_init_def put_observer_list_def
        WeakKeyDictionary_setitem_def ordinary_def registrations_def)
  have k2: "ordinary_key ?hp 2 (registrations (fst ?add1) ''tick'')"
    by (simp add: r1 ordinary_key_def) (simp_all add: ordinary_def)
  have w: "weakly_referenceable ?hp 20" "weakly_referenceable ?hp 21"
    by (simp_all add: ordinary_def)
  have r2: "by_owner (registrations (fst ?add2) ''tick'') = [(2, \<lparr>callback = WeakMethod 2 21, kwargs = [(''phase'', 2)]\<rparr>)]"
    by (simp add: Observable_add_observer_def get_observer_list_def Observable_init_def
        ObserverList_add_observer_def ObserverList_init_def put_observer_list_def
        WeakKeyDictionary_setitem_def ordinary_def ref_matches_def registrations_def
        by_owner_def)
  have n: "snd ?notify = (?calls, None)"
    by (simp add: Observable_add_observer_def get_observer_list_def Observable_init_def
        ObserverList_add_observer_def ObserverList_init_def put_observer_list_def
        WeakKeyDictionary_setitem_def ordinary_def ref_matches_def
        Observable_notify_def ObserverList_notify_def WeakKeyDictionary_values_def
        notify_loop.simps(2) merge_kwargs_def quiet_def)
  then have n': "?notify = (fst ?notify, ?calls, None)"
    by (metis prod.collapse)
  have a1: "?add1 = (fst ?add1, snd ?add1)" and a2: "?add2 = (fst ?add2, snd ?add2)"
    by simp_all
  from second_registration_overwrites [OF wf_Observable_init k1 w(1) a1 k2 w(2) a2 n',
      where g = 20]
  have "invocations (BoundMethod 2 20) ?calls = []"
    by simp
  with k1 k2 w r2 n show ?thesis by (simp add: wf_Observable_init)
qed

section \<open>Exceptions during notification\<close>

text \<open>
  C5. When \<^verbatim>\<open>notify\<close> reaches a registration whose callback raises \<open>x\<close>, the
  registrations before it having delivered, \<^verbatim>\<open>notify\<close> raises that same \<open>x\<close>; the calls
  made are those of the registrations before it and the call that raised, so no
  registration after it is notified. \<^verbatim>\<open>Observable.notify\<close> passes the exception on.
\<close>

theorem callback_exception_propagates:
  assumes vals: "WeakKeyDictionary_values alive (observers ol) = pre @ ca # post"
    and before: "\<forall>c \<in> set pre. delivers run alive event_args c"
    and target: "WeakMethod_call alive (callback ca) = Some cb"
    and merged: "merge_kwargs event_args (kwargs ca) = Inr m"
    and raises: "run cb m = Some x"
  shows "ObserverList_notify run alive ol event_args
           = (map (call_of event_args) pre @ [(cb, m)], Some (Raised x))
    \<and> (observer_lists ob e = Some ol \<longrightarrow>
          Observable_notify run alive ob e event_args
            = (ob, map (call_of event_args) pre @ [(cb, m)], Some (Raised x)))"
proof -
  from target merged raises
  have "notify_loop run alive event_args (ca # post) = ([(cb, m)], Some (Raised x))"
    by (simp add: notify_loop.simps(2))
  then have "ObserverList_notify run alive ol event_args
           = (map (call_of event_args) pre @ [(cb, m)], Some (Raised x))"
    by (simp add: ObserverList_notify_def vals notify_loop_append_delivers [OF before])
  then show ?thesis by (simp add: Observable_notify_Some)
qed

theorem callback_exception_propagates_witness:
  "WeakKeyDictionary_values {2, 3, 4, 20, 30, 40}
      (observers \<lparr>observers =
         [(Ref 2 2, \<lparr>callback = WeakMethod 2 20, kwargs = []\<rparr>),
          (Ref 3 3, \<lparr>callback = WeakMethod 3 30, kwargs = [(''phase'', 1::int)]\<rparr>),
          (Ref 4 4, \<lparr>callback = WeakMethod 4 40, kwargs = []\<rparr>)]\<rparr>)
     = [\<lparr>callback = WeakMethod 2 20, kwargs = []\<rparr>]
       @ \<lparr>callback = WeakMethod 3 30, kwargs = [(''phase'', 1)]\<rparr>
       # [\<lparr>callback = WeakMethod 4 40, kwargs = []\<rparr>]
   \<and> delivers (raising 3 ''boom'') {2, 3, 4, 20, 30, 40} [(''count'', 5)]
        \<lparr>callback = WeakMethod 2 20, kwargs = []\<rparr>
   \<and> raising 3 ''boom'' (BoundMethod 3 30) [(''count'', 5), (''phase'', 1)] = Some ''boom''
   \<and> ObserverList_notify (raising 3 ''boom'') {2, 3, 4, 20, 30, 40}
        \<lparr>observers =
         [(Ref 2 2, \<lparr>callback = WeakMethod 2 20, kwargs = []\<rparr>),
          (Ref 3 3, \<lparr>callback = WeakMethod 3 30, kwargs = [(''phase'', 1)]\<rparr>),
          (Ref 4 4, \<lparr>callback = WeakMethod 4 40, kwargs = []\<rparr>)]\<rparr> [(''count'', 5)]
     = ([(BoundMethod 2 20, [(''count'', 5)]),
         (BoundMethod 3 30, [(''count'', 5), (''phase'', 1)])], Some (Raised ''boom''))"
proof -
  let ?alive = "{2, 3, 4, 20, 30, 40} :: obj set"
  let ?c2 = "\<lparr>callback = WeakMethod 2 20, kwargs = [] :: int kwargs\<rparr>"
  let ?c3 = "\<lparr>callback = WeakMethod 3 30, kwargs = [(''phase'', 1::int)]\<rparr>"
  let ?c4 = "\<lparr>callback = WeakMethod 4 40, kwargs = [] :: int kwargs\<rparr>"
  let ?ol = "\<lparr>observers = [(Ref 2 2, ?c2), (Ref 3 3, ?c3), (Ref 4 4, ?c4)]\<rparr>"
  have v: "WeakKeyDictionary_values ?alive (observers ?ol) = [?c2] @ ?c3 # [?c4]"
    by (simp add: WeakKeyDictionary_values_def)
  have d: "delivers (raising 3 ''boom'') ?alive [(''count'', 5)] ?c2"
    by (simp add: delivers_def notify_loop.simps(2) merge_kwargs_def raising_def)
  then have b: "\<forall>c \<in> set [?c2]. delivers (raising 3 ''boom'') ?alive [(''count'', 5)] c"
    by simp
  have t: "WeakMethod_call ?alive (callback ?c3) = Some (BoundMethod 3 30)" by simp
  have m: "merge_kwargs [(''count'', 5)] (kwargs ?c3) = Inr [(''count'', 5), (''phase'', 1)]"
    by (simp add: merge_kwargs_def)
  have r: "raising 3 ''boom'' (BoundMethod 3 30) [(''count'', 5), (''phase'', 1)] = Some ''boom''"
    by (simp add: raising_def)
  from callback_exception_propagates [OF v b t m r, where ob = Observable_init and e = "''tick''"]
  have "ObserverList_notify (raising 3 ''boom'') ?alive ?ol [(''count'', 5)]
     = ([(BoundMethod 2 20, [(''count'', 5)]),
         (BoundMethod 3 30, [(''count'', 5), (''phase'', 1)])], Some (Raised ''boom''))"
    by (simp add: call_of_def)
  with v d r show ?thesis by simp
qed

text \<open>
  C9. When \<^verbatim>\<open>notify\<close> reaches a registration, whose owner exists, that has a keyword
  argument under a key of the event arguments, it raises the \<^verbatim>\<open>TypeError\<close> of a
  repeated keyword argument, for a key that both have, and the callback of that
  registration is not called: the calls made are those of the registrations before it.
\<close>

theorem shared_key_raises_TypeError:
  assumes vals: "WeakKeyDictionary_values alive (observers ol) = pre @ ca # post"
    and before: "\<forall>c \<in> set pre. delivers run alive event_args c"
    and shared: "k \<in> set (map fst event_args)" "k \<in> set (map fst (kwargs ca))"
  shows "\<exists>k'. k' \<in> set (map fst event_args) \<and> k' \<in> set (map fst (kwargs ca))
          \<and> ObserverList_notify run alive ol event_args
               = (map (call_of event_args) pre, Some (TypeError_multiple_values k'))"
proof -
  from merge_kwargs_shared [OF shared] obtain k'
    where m: "(merge_kwargs event_args (kwargs ca) :: error + _) = Inl (TypeError_multiple_values k')"
      and k': "k' \<in> set (map fst event_args)" "k' \<in> set (map fst (kwargs ca))"
    by blast
  from m have "notify_loop run alive event_args (ca # post)
      = ([], Some (TypeError_multiple_values k'))"
    by (simp add: notify_loop.simps(2))
  then have "ObserverList_notify run alive ol event_args
               = (map (call_of event_args) pre, Some (TypeError_multiple_values k'))"
    by (simp add: ObserverList_notify_def vals notify_loop_append_delivers [OF before])
  with k' show ?thesis by blast
qed

theorem shared_key_raises_TypeError_witness:
  "WeakKeyDictionary_values {2, 3, 20, 30}
      (observers \<lparr>observers =
         [(Ref 2 2, \<lparr>callback = WeakMethod 2 20, kwargs = []\<rparr>),
          (Ref 3 3, \<lparr>callback = WeakMethod 3 30, kwargs = [(''phase'', 1::int), (''count'', 7)]\<rparr>)]\<rparr>)
     = [\<lparr>callback = WeakMethod 2 20, kwargs = []\<rparr>]
       @ \<lparr>callback = WeakMethod 3 30, kwargs = [(''phase'', 1), (''count'', 7)]\<rparr> # []
   \<and> delivers quiet {2, 3, 20, 30} [(''count'', 5)] \<lparr>callback = WeakMethod 2 20, kwargs = []\<rparr>
   \<and> ''count'' \<in> set (map fst [(''count'', 5::int)])
   \<and> ''count'' \<in> set (map fst [(''phase'', 1::int), (''count'', 7)])
   \<and> (\<exists>k'. ObserverList_notify quiet {2, 3, 20, 30}
        \<lparr>observers =
         [(Ref 2 2, \<lparr>callback = WeakMethod 2 20, kwargs = []\<rparr>),
          (Ref 3 3, \<lparr>callback = WeakMethod 3 30, kwargs = [(''phase'', 1), (''count'', 7)]\<rparr>)]\<rparr>
        [(''count'', 5)]
     = ([(BoundMethod 2 20, [(''count'', 5)])], Some (TypeError_multiple_values k')))"
proof -
  let ?alive = "{2, 3, 20, 30} :: obj set"
  let ?c2 = "\<lparr>callback = WeakMethod 2 20, kwargs = [] :: int kwargs\<rparr>"
  let ?c3 = "\<lparr>callback = WeakMethod 3 30, kwargs = [(''phase'', 1::int), (''count'', 7)]\<rparr>"
  let ?ol = "\<lparr>observers = [(Ref 2 2, ?c2), (Ref 3 3, ?c3)]\<rparr>"
  have v: "WeakKeyDictionary_values ?alive (observers ?ol) = [?c2] @ ?c3 # []"
    by (simp add: WeakKeyDictionary_values_def)
  have d: "delivers quiet ?alive [(''count'', 5)] ?c2"
    by (simp add: delivers_def notify_loop.simps(2) merge_kwargs_def quiet_def)
  then have b: "\<forall>c \<in> set [?c2]. delivers quiet ?alive [(''count'', 5)] c"
    by simp
  have s1: "''count'' \<in> set (map fst [(''count'', 5::int)])" by simp
  have s2: "''count'' \<in> set (map fst (kwargs ?c3))" by simp
  from shared_key_raises_TypeError [OF v b s1 s2]
  have "\<exists>k'. ObserverList_notify quiet ?alive ?ol [(''count'', 5)]
     = ([(BoundMethod 2 20, [(''count'', 5)])], Some (TypeError_multiple_values k'))"
    by (simp add: call_of_def)
  with v d show ?thesis by simp
qed

section \<open>Events without observers, and distinct events\<close>

lemma notify_loop_calls_registered:
  "c \<in> set (fst (notify_loop run alive event_args cas)) \<Longrightarrow>
   fst c \<in> (\<lambda>ca. bound (callback ca)) ` set cas"
proof -
  assume c: "c \<in> set (fst (notify_loop run alive event_args cas))"
  obtain n where "fst (notify_loop run alive event_args cas)
      = map (call_of event_args) (take n cas)"
    using notify_loop_prefix by blast
  with c obtain ca where "ca \<in> set (take n cas)" "c = call_of event_args ca" by auto
  then show ?thesis by (auto simp: call_of_def dest: in_set_takeD)
qed

lemma values_subset:
  "set (WeakKeyDictionary_values alive d) \<subseteq> snd ` set d"
  by (auto simp: WeakKeyDictionary_values_def)

lemma Observable_notify_registrations:
  "Observable_notify run alive ob e event_args
     = (fst (get_observer_list ob e),
        notify_loop run alive event_args (WeakKeyDictionary_values alive (registrations ob e)))"
  by (simp add: Observable_notify_def ObserverList_notify_def get_observer_list_def
      registrations_def ObserverList_init_def split: option.splits)

lemma Observable_add_observer_other:
  "e' \<noteq> e \<Longrightarrow>
   observer_lists (fst (Observable_add_observer hp ob e cb kw)) e' = observer_lists ob e'"
  by (auto simp: Observable_add_observer_def get_observer_list_def put_observer_list_def
      split: option.splits prod.splits)

text \<open>
  C7. \<^verbatim>\<open>Observable.notify\<close> for an event that has no registration whose owner exists
  (an event never seen before among them) calls nothing and raises nothing. The
  Observable is unchanged, except that an event seen for the first time gets its empty
  list.
\<close>

theorem notify_without_observers:
  assumes "WeakKeyDictionary_values alive (registrations ob e) = []"
  shows "Observable_notify run alive ob e event_args
     = (if observer_lists ob e = None
        then ob\<lparr>observer_lists := (observer_lists ob)(e \<mapsto> ObserverList_init)\<rparr>
        else ob, [], None)"
  using assms
  by (auto simp: Observable_notify_registrations get_observer_list_def)

theorem notify_without_observers_witness:
  "WeakKeyDictionary_values {2, 20} (registrations (Observable_init :: int Observable) ''tick'') = []
   \<and> Observable_notify quiet {2, 20} Observable_init ''tick'' [(''count'', 5)]
      = (\<lparr>observer_lists = [''tick'' \<mapsto> ObserverList_init]\<rparr>, [], None)"
proof -
  have r: "WeakKeyDictionary_values {2, 20}
      (registrations (Observable_init :: int Observable) ''tick'') = []"
    by (simp add: registrations_def Observable_init_def WeakKeyDictionary_values_def)
  from notify_without_observers [OF r, where run = quiet and event_args = "[(''count'', 5)]"]
  have "Observable_notify quiet {2, 20} Observable_init ''tick'' [(''count'', 5)]
      = (\<lparr>observer_lists = [''tick'' \<mapsto> ObserverList_init]\<rparr>, [], None)"
    by (simp add: Observable_init_def)
  with r show ?thesis by simp
qed

text \<open>
  C8. \<^verbatim>\<open>add_observer\<close> for event \<open>a\<close> leaves the list of every other event \<open>b\<close> as it
  was, so \<^verbatim>\<open>notify\<close> for \<open>b\<close> makes the same calls and raises the same exception as
  before; a callback that is not registered for \<open>b\<close> is not invoked by \<^verbatim>\<open>notify\<close> for
  \<open>b\<close> after being registered for \<open>a\<close>.
\<close>

theorem events_are_independent:
  assumes ne: "a \<noteq> b"
    and add: "Observable_add_observer hp ob a cb kw = (ob1, r)"
  shows "observer_lists ob1 b = observer_lists ob b
    \<and> snd (Observable_notify run alive ob1 b event_args)
        = snd (Observable_notify run alive ob b event_args)
    \<and> (cb \<notin> (\<lambda>p. bound (callback (snd p))) ` set (registrations ob b) \<longrightarrow>
          invocations cb (fst (snd (Observable_notify run alive ob1 b event_args))) = [])"
proof -
  from ne add have same: "observer_lists ob1 b = observer_lists ob b"
    using Observable_add_observer_other [of b a hp ob cb kw] by simp
  then have regs: "registrations ob1 b = registrations ob b"
    by (simp add: registrations_def)
  have "invocations cb (fst (snd (Observable_notify run alive ob1 b event_args))) = []"
    if out: "cb \<notin> (\<lambda>p. bound (callback (snd p))) ` set (registrations ob b)"
  proof -
    have "fst c \<noteq> cb"
      if "c \<in> set (fst (notify_loop run alive event_args
                (WeakKeyDictionary_values alive (registrations ob b))))" for c
    proof -
      from notify_loop_calls_registered [OF that] obtain ca
        where "ca \<in> set (WeakKeyDictionary_values alive (registrations ob b))"
          and "fst c = bound (callback ca)"
        by blast
      with values_subset [of alive "registrations ob b"] out show ?thesis by auto
    qed
    then show ?thesis
      by (auto simp: Observable_notify_registrations regs invocations_def filter_empty_conv)
  qed
  with same regs show ?thesis by (simp add: Observable_notify_registrations)
qed

theorem events_are_independent_witness:
  "''A'' \<noteq> ''B''
   \<and> BoundMethod 2 20 \<notin> (\<lambda>p. bound (callback (snd p)))
        ` set (registrations (Observable_init :: int Observable) ''B'')
   \<and> invocations (BoundMethod 2 20)
        (fst (snd (Observable_notify quiet {2, 20}
          (fst (Observable_add_observer (ordinary {2, 20}) Observable_init ''A''
                 (BoundMethod 2 20) []))
          ''B'' [(''count'', 5)]))) = []"
proof -
  let ?add = "Observable_add_observer (ordinary {2, 20}) (Observable_init :: int Observable)
                ''A'' (BoundMethod 2 20) []"
  have ne: "''A'' \<noteq> ''B''" by simp
  have out: "BoundMethod 2 20 \<notin> (\<lambda>p. bound (callback (snd p)))
        ` set (registrations (Observable_init :: int Observable) ''B'')"
    by (simp add: registrations_def Observable_init_def)
  have eq: "?add = (fst ?add, snd ?add)" by simp
  from events_are_independent [OF ne eq, where run = quiet
      and alive = "{2, 20}" and event_args = "[(''count'', 5)]"] out
  have "invocations (BoundMethod 2 20)
        (fst (snd (Observable_notify quiet {2, 20} (fst ?add) ''B'' [(''count'', 5)]))) = []"
    by blast
  with ne out show ?thesis by simp
qed

section \<open>Registrations whose weak method has expired\<close>

text \<open>
  A registration whose owner was destroyed is skipped: \<^verbatim>\<open>notify\<close> behaves as if the
  entry had been deleted already. \<^verbatim>\<open>notify\<close> itself deletes nothing.
\<close>

lemma notify_skips_dead_owner:
  "s \<notin> alive \<Longrightarrow>
   ObserverList_notify run alive ol event_args
     = ObserverList_notify run alive (ObserverList_collect s ol) event_args"
proof -
  assume "s \<notin> alive"
  then have "filter (\<lambda>p. referent (fst p) \<in> alive)
        (filter (\<lambda>p. referent (fst p) \<noteq> s) (observers ol))
      = filter (\<lambda>p. referent (fst p) \<in> alive) (observers ol)"
    by (auto intro: filter_cong)
  then show ?thesis
    by (simp add: ObserverList_notify_def ObserverList_collect_def WeakKeyDictionary_remove_def
        WeakKeyDictionary_values_def)
qed

lemma Observable_notify_keeps_registrations:
  "registrations (fst (Observable_notify run alive ob e event_args)) e' = registrations ob e'"
  by (simp add: Observable_notify_registrations registrations_get_observer_list)

text \<open>
  C2 asks that a stored registration whose weak method has expired be skipped without an
  error. That holds when the owner was destroyed, but not when only the function was:
  the entry stays under its living owner, the weak method gives \<^verbatim>\<open>None\<close>, and calling it
  raises \<^verbatim>\<open>TypeError\<close>. Here owners 2 and 3 are registered while all objects exist;
  then owner 2 exists and its function 20 does not; \<^verbatim>\<open>notify\<close> raises, and the
  callback of owner 3, whose function 30 exists, is not called.
\<close>

theorem notify_dead_function_raises:
  "ObserverList_notify quiet {2, 3, 30}
     (fst (ObserverList_add_observer (ordinary {2, 3, 20, 30})
        (fst (ObserverList_add_observer (ordinary {2, 3, 20, 30}) ObserverList_init
               (BoundMethod 2 20) []))
        (BoundMethod 3 30) [])) [(''count'', 5)]
   = ([], Some TypeError_not_callable)"
  by (simp add: ObserverList_notify_def ObserverList_add_observer_def ObserverList_init_def
      WeakKeyDictionary_setitem_def ordinary_def ref_matches_def
      WeakKeyDictionary_values_def notify_loop.simps(2) merge_kwargs_def)

end
